theory Spec2Isabelle
  imports Main
begin

section \<open>MoneyCast: the forecasting engine of moneycast.py\<close>

text \<open>
  The development follows \<^verbatim>\<open>src/moneycast.py\<close>: the calendar helpers
  \<^verbatim>\<open>add_weeks\<close> and \<^verbatim>\<open>add_months\<close>, the class \<^verbatim>\<open>BudgetItem\<close>,
  \<^verbatim>\<open>BudgetItemDecoder.decode\<close> and the engine part of \<^verbatim>\<open>forecast\<close>
  (lines 183 to 245; the console report and the chart after it are not modelled).
  Exceptions are values of the type \<open>error\<close>; a function that can raise returns
  \<open>error + 'a\<close> with \<open>Inl\<close> for the exception.
\<close>

subsection \<open>Exceptions\<close>

text \<open>
  \<^item> \<open>IndexError\<close>: \<^verbatim>\<open>date_list[0]\<close> on an empty list.
  \<^item> \<open>DateOutOfRange\<close>: the \<^verbatim>\<open>ValueError\<close> or \<^verbatim>\<open>OverflowError\<close> that
    \<^verbatim>\<open>datetime.date\<close> raises when a date would leave the years 1 to 9999 or
    is not a day of the calendar.
  \<^item> \<open>TypeError\<close>, \<open>AttributeError\<close>: an operand of the wrong type, a missing attribute.
  \<^item> \<open>MissingField f\<close>: the decoder's \<^verbatim>\<open>ValueError('missing field "f" ...')\<close>.
  \<^item> \<open>KeyError\<close>: raised by \<^verbatim>\<open>CycleEnum[...]\<close> and \<^verbatim>\<open>DueDateType[...]\<close>
    for a name that is no member (the specification's UnknownEnumValue) and by
    \<^verbatim>\<open>item[k]\<close> for an absent key; the decoder prints it and raises it again.
  \<^item> \<open>DueDateNotRecord\<close>: the decoder's \<^verbatim>\<open>ValueError('due_date is not of type: "day", ...')\<close>.
  \<^item> \<open>InvalidDueDate\<close>: the decoder's \<^verbatim>\<open>ValueError('due_date is not of type DayOfWeek')\<close>.
\<close>

datatype error =
    IndexError
  | DateOutOfRange
  | TypeError
  | AttributeError
  | MissingField string
  | KeyError
  | DueDateNotRecord
  | InvalidDueDate

subsection \<open>Calendar dates (\<^verbatim>\<open>datetime.date\<close>)\<close>

text \<open>
  A \<^verbatim>\<open>datetime.date\<close> holds a year, a month and a day; Python only ever builds
  the dates that satisfy \<open>valid_date\<close> (years 1 to 9999) and compares two dates
  field by field, year first.
\<close>

record date =
  year :: int
  month :: int
  day :: int

definition isleap :: "int \<Rightarrow> bool" where
  "isleap y = (y mod 4 = 0 \<and> (y mod 100 \<noteq> 0 \<or> y mod 400 = 0))"

text \<open>\<^verbatim>\<open>calendar.monthrange(year, month)[1]\<close>: the number of days of a month.\<close>

definition days_in_month :: "int \<Rightarrow> int \<Rightarrow> int" where
  "days_in_month y m =
     (if m = 2 then (if isleap y then 29 else 28)
      else if m = 4 \<or> m = 6 \<or> m = 9 \<or> m = 11 then 30
      else 31)"

definition valid_date :: "date \<Rightarrow> bool" where
  "valid_date d =
     (1 \<le> year d \<and> year d \<le> 9999 \<and> 1 \<le> month d \<and> month d \<le> 12 \<and>
      1 \<le> day d \<and> day d \<le> days_in_month (year d) (month d))"

text \<open>The constructor \<^verbatim>\<open>date(year, month, day)\<close>, which checks its arguments.\<close>

definition mk_date :: "int \<Rightarrow> int \<Rightarrow> int \<Rightarrow> error + date" where
  "mk_date y m d =
     (if valid_date \<lparr>year = y, month = m, day = d\<rparr>
      then Inr \<lparr>year = y, month = m, day = d\<rparr>
      else Inl DateOutOfRange)"

definition date_less :: "date \<Rightarrow> date \<Rightarrow> bool" where
  "date_less a b =
     (year a < year b \<or>
      (year a = year b \<and> (month a < month b \<or> (month a = month b \<and> day a < day b))))"

text \<open>
  \<^verbatim>\<open>d + timedelta(days=n)\<close> is the date \<open>n\<close> days after \<open>d\<close> (before it when
  \<open>n\<close> is negative), and an \<^verbatim>\<open>OverflowError\<close> when that day is outside the years
  1 to 9999. The model counts the days one by one.
\<close>

definition next_day :: "date \<Rightarrow> error + date" where
  "next_day d =
     (if day d < days_in_month (year d) (month d) then Inr (d\<lparr>day := day d + 1\<rparr>)
      else if month d < 12 then Inr \<lparr>year = year d, month = month d + 1, day = 1\<rparr>
      else if year d < 9999 then Inr \<lparr>year = year d + 1, month = 1, day = 1\<rparr>
      else Inl DateOutOfRange)"

definition prev_day :: "date \<Rightarrow> error + date" where
  "prev_day d =
     (if 1 < day d then Inr (d\<lparr>day := day d - 1\<rparr>)
      else if 1 < month d then
        Inr \<lparr>year = year d, month = month d - 1, day = days_in_month (year d) (month d - 1)\<rparr>
      else if 1 < year d then Inr \<lparr>year = year d - 1, month = 12, day = 31\<rparr>
      else Inl DateOutOfRange)"

fun iter_day :: "(date \<Rightarrow> error + date) \<Rightarrow> nat \<Rightarrow> date \<Rightarrow> error + date" where
  "iter_day f 0 d = Inr d"
| "iter_day f (Suc k) d = (case f d of Inl e \<Rightarrow> Inl e | Inr d' \<Rightarrow> iter_day f k d')"

definition add_days :: "date \<Rightarrow> int \<Rightarrow> error + date" where
  "add_days d n = (if 0 \<le> n then iter_day next_day (nat n) d else iter_day prev_day (nat (- n)) d)"

text \<open>
  \<^verbatim>\<open>date.toordinal()\<close> (day 1 is 0001-01-01) and \<^verbatim>\<open>date.isoweekday()\<close>
  (Monday is 1, Sunday is 7), as the standard library computes them.
\<close>

definition days_before_year :: "int \<Rightarrow> int" where
  "days_before_year y = (y - 1) * 365 + (y - 1) div 4 - (y - 1) div 100 + (y - 1) div 400"

definition days_before_month :: "int \<Rightarrow> int \<Rightarrow> int" where
  "days_before_month y m =
     [0, 31, 59, 90, 120, 151, 181, 212, 243, 273, 304, 334] ! nat (m - 1)
       + (if 2 < m \<and> isleap y then 1 else 0)"

definition toordinal :: "date \<Rightarrow> int" where
  "toordinal d = days_before_year (year d) + days_before_month (year d) (month d) + day d"

definition isoweekday :: "date \<Rightarrow> int" where
  "isoweekday d = (let r = toordinal d mod 7 in if r = 0 then 7 else r)"

subsection \<open>Recurrence calendar math\<close>

definition add_weeks :: "date \<Rightarrow> int \<Rightarrow> error + date" where
  "add_weeks sourcedate weeks = add_days sourcedate (7 * weeks)"

definition add_months :: "date \<Rightarrow> int \<Rightarrow> error + date" where
  "add_months sourcedate months =
     (let month0 = month sourcedate - 1 + months;
          year1 = year sourcedate + month0 div 12;
          month1 = month0 mod 12 + 1;
          day1 = min (day sourcedate) (days_in_month year1 month1)
      in mk_date year1 month1 day1)"

subsection \<open>The enumerations\<close>

datatype CycleEnum = DAILY | WEEKLY | BIWEEKLY | MONTHLY | BIMONTHLY | QUARTERLY | YEARLY

datatype DueDateType = WeekDay | DateNumber | Date | Daily

datatype DayOfWeek = Monday | Tuesday | Wednesday | Thursday | Friday | Saturday | Sunday

text \<open>
  \<^verbatim>\<open>DayOfWeek(n)\<close>, the member with value \<open>n\<close>. The engine only calls it on
  \<^verbatim>\<open>t.isoweekday()\<close>, which lies between 1 and 7 (lemma \<open>isoweekday_range\<close>).
\<close>

definition DayOfWeek_of :: "int \<Rightarrow> DayOfWeek" where
  "DayOfWeek_of n =
     (if n = 1 then Monday else if n = 2 then Tuesday else if n = 3 then Wednesday
      else if n = 4 then Thursday else if n = 5 then Friday else if n = 6 then Saturday
      else Sunday)"

subsection \<open>The budget item\<close>

text \<open>
  The attribute \<^verbatim>\<open>due_date\<close> holds an integer, a day of the week, a date or
  \<^verbatim>\<open>None\<close>; \<open>Unset\<close> stands for an object on which the constructor never set
  the attribute. The attribute \<^verbatim>\<open>due_date_type\<close> starts as \<^verbatim>\<open>None\<close>
  (here \<open>None\<close> of the option type). The types of the name and of the amount are left
  open: the engine only stores names as dictionary keys and adds amounts.
\<close>

datatype due_value = IntVal int | DayVal DayOfWeek | DateVal date | NoneVal | Unset

record ('n, 'a) BudgetItem =
  name :: 'n
  amount :: 'a
  cycle :: CycleEnum
  due_date_type :: "DueDateType option"
  due_date :: due_value

text \<open>
  The value passed as \<^verbatim>\<open>due_date\<close> to the constructor, by the type tests the
  constructor makes, in its order: an \<^verbatim>\<open>int\<close> (a \<^verbatim>\<open>bool\<close> is one), a
  \<^verbatim>\<open>DayOfWeek\<close>, a \<^verbatim>\<open>date\<close>, \<^verbatim>\<open>None\<close>, or a value of any other type
  (a string, a float, a list, a dictionary).
\<close>

datatype init_arg = ArgInt int | ArgDayOfWeek DayOfWeek | ArgDate date | ArgNone | ArgOther

definition BudgetItem_init ::
  "'n \<Rightarrow> 'a \<Rightarrow> CycleEnum \<Rightarrow> init_arg \<Rightarrow> error + ('n, 'a) BudgetItem" where
  "BudgetItem_init nm amt cyc arg =
     (case arg of
        ArgInt n \<Rightarrow>
          Inr \<lparr>name = nm, amount = amt, cycle = cyc,
               due_date_type = Some DateNumber, due_date = IntVal n\<rparr>
      | ArgDayOfWeek w \<Rightarrow>
          Inr \<lparr>name = nm, amount = amt, cycle = cyc,
               due_date_type = Some WeekDay, due_date = DayVal w\<rparr>
      | ArgDate d \<Rightarrow>
          Inr \<lparr>name = nm, amount = amt, cycle = cyc,
               due_date_type = Some Date, due_date = DateVal d\<rparr>
      | ArgNone \<Rightarrow>
          Inr \<lparr>name = nm, amount = amt, cycle = cyc,
               due_date_type = Some Daily, due_date = NoneVal\<rparr>
      | ArgOther \<Rightarrow>
          Inr \<lparr>name = nm, amount = amt, cycle = cyc,
               due_date_type = None, due_date = Unset\<rparr>)"


subsection \<open>The decoder\<close>

text \<open>
  The values \<^verbatim>\<open>json.loads\<close> returns; \<open>'f\<close> is the type of floats, which the
  decoder never inspects. A dictionary is a list of pairs read with \<open>map_of\<close>.
  The model starts from the parsed list and takes each of its elements to be a
  dictionary (a record of the input schema).
\<close>

datatype 'f json =
    JNull
  | JBool bool
  | JInt int
  | JFloat 'f
  | JStr string
  | JList "'f json list"
  | JDict "(string \<times> 'f json) list"














subsection \<open>The forecast engine\<close>

text \<open>
  One entry of \<^verbatim>\<open>balance_list\<close>: the day, the balance at the end of the day and
  the day's transactions, a dictionary from item names to amounts. (The source stores
  the balance formatted as text and keeps the number in \<^verbatim>\<open>daily_balance_list\<close>;
  the entry here holds the number.)
\<close>

record ('n, 'a) entry =
  on_date :: date
  end_balance :: 'a
  trans :: "'n \<rightharpoonup> 'a"

text \<open>A list comprehension whose body can raise: the first exception ends it.\<close>

fun collect :: "('x \<Rightarrow> error + 'y) \<Rightarrow> 'x list \<Rightarrow> error + 'y list" where
  "collect f [] = Inr []"
| "collect f (x # xs) =
     (case f x of
        Inl e \<Rightarrow> Inl e
      | Inr y \<Rightarrow> (case collect f xs of Inl e \<Rightarrow> Inl e | Inr ys \<Rightarrow> Inr (y # ys)))"

text \<open>\<^verbatim>\<open>[start + timedelta(days=x) for x in range(0, duration*7)]\<close>\<close>

definition date_list_of :: "date \<Rightarrow> int \<Rightarrow> error + date list" where
  "date_list_of start duration =
     collect (\<lambda>x. add_days start (int x)) [0..<nat (duration * 7)]"

text \<open>
  The operands of \<^verbatim>\<open>item.due_date < date_list[0]\<close>, evaluated from left to
  right: the attribute, the first day of the window, and the two must be dates.
\<close>

definition phase1_operands :: "due_value \<Rightarrow> date list \<Rightarrow> error + date \<times> date" where
  "phase1_operands v date_list =
     (if v = Unset then Inl AttributeError
      else
        (case date_list of
           [] \<Rightarrow> Inl IndexError
         | first # rest \<Rightarrow> (case v of DateVal d \<Rightarrow> Inr (d, first) | _ \<Rightarrow> Inl TypeError)))"

text \<open>
  \<^verbatim>\<open>while item.due_date < date_list[0]: item.due_date = step(item.due_date)\<close>.
  The result is \<open>None\<close> when the loop runs forever.
\<close>

partial_function (option) advance_until ::
  "(date \<Rightarrow> error + date) \<Rightarrow> date \<Rightarrow> date \<Rightarrow> (error + date) option" where
  "advance_until step first d =
     (if date_less d first then
        (case step d of Inl e \<Rightarrow> Some (Inl e) | Inr d' \<Rightarrow> advance_until step first d')
      else Some (Inr d))"

declare advance_until.simps [code]

definition set_due_date ::
  "('n, 'a) BudgetItem \<Rightarrow> error + date \<Rightarrow> error + ('n, 'a) BudgetItem" where
  "set_due_date item r =
     (case r of Inl e \<Rightarrow> Inl e | Inr d \<Rightarrow> Inr (item\<lparr>due_date := DateVal d\<rparr>))"

text \<open>Phase 1, the body of the loop over the budget (lines 194 to 211).\<close>

definition normalize ::
  "date list \<Rightarrow> ('n, 'a) BudgetItem \<Rightarrow> (error + ('n, 'a) BudgetItem) option" where
  "normalize date_list item =
     (if due_date_type item = Some Date then
        (case phase1_operands (due_date item) date_list of
           Inl e \<Rightarrow> Some (Inl e)
         | Inr (d, first) \<Rightarrow>
             if date_less d first then
               if cycle item = BIWEEKLY then
                 map_option (set_due_date item) (advance_until (\<lambda>x. add_weeks x 2) first d)
               else if cycle item = BIMONTHLY then
                 map_option (set_due_date item) (advance_until (\<lambda>x. add_months x 2) first d)
               else if cycle item = QUARTERLY then
                 map_option (set_due_date item) (advance_until (\<lambda>x. add_months x 3) first d)
               else if cycle item = YEARLY then
                 map_option (set_due_date item) (advance_until (\<lambda>x. add_months x 12) first d)
               else Some (Inr item)
             else Some (Inr item))
      else Some (Inr item))"

fun normalize_all ::
  "date list \<Rightarrow> ('n, 'a) BudgetItem list \<Rightarrow> (error + ('n, 'a) BudgetItem list) option" where
  "normalize_all date_list [] = Some (Inr [])"
| "normalize_all date_list (item # budget) =
     (case normalize date_list item of
        None \<Rightarrow> None
      | Some (Inl e) \<Rightarrow> Some (Inl e)
      | Some (Inr item') \<Rightarrow>
          (case normalize_all date_list budget of
             None \<Rightarrow> None
           | Some (Inl e) \<Rightarrow> Some (Inl e)
           | Some (Inr budget') \<Rightarrow> Some (Inr (item' # budget'))))"

text \<open>
  \<^verbatim>\<open>daily_balance += item.amount; trans[item.name] = item.amount\<close>
\<close>

definition apply_item ::
  "('n, 'a::plus) BudgetItem \<Rightarrow> 'a \<times> ('n \<rightharpoonup> 'a) \<Rightarrow> 'a \<times> ('n \<rightharpoonup> 'a)" where
  "apply_item item s = (fst s + amount item, (snd s)(name item \<mapsto> amount item))"

text \<open>
  Phase 2, the body of the inner loop (lines 216 to 242): one item on the day \<open>t\<close>,
  from the running balance and the day's transactions to the new ones and the
  item as the step leaves it.
\<close>

definition item_step ::
  "date \<Rightarrow> ('n, 'a::plus) BudgetItem \<Rightarrow> 'a \<times> ('n \<rightharpoonup> 'a) \<Rightarrow>
     error + ('a \<times> ('n \<rightharpoonup> 'a)) \<times> ('n, 'a) BudgetItem" where
  "item_step t item s =
     (if due_date_type item = Some WeekDay then
        if due_date item = Unset then Inl AttributeError
        else if due_date item = DayVal (DayOfWeek_of (isoweekday t))
        then Inr (apply_item item s, item)
        else Inr (s, item)
      else if due_date_type item = Some DateNumber then
        if due_date item = Unset then Inl AttributeError
        else if due_date item = IntVal (day t)
        then Inr (apply_item item s, item)
        else Inr (s, item)
      else if due_date_type item = Some Daily then Inr (apply_item item s, item)
      else if due_date_type item = Some Date then
        (case due_date item of
           Unset \<Rightarrow> Inl AttributeError
         | DateVal d \<Rightarrow>
             if d = t then
               if cycle item = BIWEEKLY then
                 (case add_weeks d 2 of
                    Inl e \<Rightarrow> Inl e
                  | Inr d' \<Rightarrow> Inr (apply_item item s, item\<lparr>due_date := DateVal d'\<rparr>))
               else if cycle item = BIMONTHLY then
                 (case add_months d 2 of
                    Inl e \<Rightarrow> Inl e
                  | Inr d' \<Rightarrow> Inr (apply_item item s, item\<lparr>due_date := DateVal d'\<rparr>))
               else if cycle item = QUARTERLY then
                 (case add_months d 3 of
                    Inl e \<Rightarrow> Inl e
                  | Inr d' \<Rightarrow> Inr (apply_item item s, item\<lparr>due_date := DateVal d'\<rparr>))
               else if cycle item = YEARLY then
                 (case add_months d 12 of
                    Inl e \<Rightarrow> Inl e
                  | Inr d' \<Rightarrow> Inr (apply_item item s, item\<lparr>due_date := DateVal d'\<rparr>))
               else Inr (apply_item item s, item)
             else Inr (s, item)
         | _ \<Rightarrow> Inr (s, item))
      else Inr (s, item))"

text \<open>The inner loop: every item of the budget on the day \<open>t\<close>, in order.\<close>

fun day_step ::
  "date \<Rightarrow> ('n, 'a::plus) BudgetItem list \<Rightarrow> 'a \<times> ('n \<rightharpoonup> 'a) \<Rightarrow>
     error + ('a \<times> ('n \<rightharpoonup> 'a)) \<times> ('n, 'a) BudgetItem list" where
  "day_step t [] s = Inr (s, [])"
| "day_step t (item # budget) s =
     (case item_step t item s of
        Inl e \<Rightarrow> Inl e
      | Inr (s', item') \<Rightarrow>
          (case day_step t budget s' of
             Inl e \<Rightarrow> Inl e
           | Inr (s'', budget') \<Rightarrow> Inr (s'', item' # budget')))"

text \<open>
  The outer loop (lines 213 to 245): the transactions start empty every day, and
  the day's entry is appended after the inner loop. The result is the list of
  entries, the last running balance and the budget as the walk leaves it.
\<close>

fun walk_days ::
  "date list \<Rightarrow> ('n, 'a::plus) BudgetItem list \<Rightarrow> 'a \<Rightarrow>
     error + ('n, 'a) entry list \<times> 'a \<times> ('n, 'a) BudgetItem list" where
  "walk_days [] budget daily_balance = Inr ([], daily_balance, budget)"
| "walk_days (t # ts) budget daily_balance =
     (case day_step t budget (daily_balance, Map.empty) of
        Inl e \<Rightarrow> Inl e
      | Inr ((daily_balance', tr), budget') \<Rightarrow>
          (case walk_days ts budget' daily_balance' of
             Inl e \<Rightarrow> Inl e
           | Inr (entries, final, budget'') \<Rightarrow>
               Inr (\<lparr>on_date = t, end_balance = daily_balance', trans = tr\<rparr> # entries,
                    final, budget'')))"

text \<open>
  \<^verbatim>\<open>forecast(balance, start, duration, budget)\<close> up to line 245. Line 184 prints
  \<^verbatim>\<open>start + timedelta(weeks=duration)\<close>, which raises when that day is out of
  range. The budget is a list of distinct objects; the items the call mutated are
  returned with the entries.
\<close>

definition forecast ::
  "'a::plus \<Rightarrow> date \<Rightarrow> int \<Rightarrow> ('n, 'a) BudgetItem list \<Rightarrow>
     (error + ('n, 'a) entry list \<times> 'a \<times> ('n, 'a) BudgetItem list) option" where
  "forecast balance start duration budget =
     (case add_days start (7 * duration) of
        Inl e \<Rightarrow> Some (Inl e)
      | Inr end_day \<Rightarrow>
          (case date_list_of start duration of
             Inl e \<Rightarrow> Some (Inl e)
           | Inr date_list \<Rightarrow>
               (case normalize_all date_list budget of
                  None \<Rightarrow> None
                | Some (Inl e) \<Rightarrow> Some (Inl e)
                | Some (Inr budget') \<Rightarrow> Some (walk_days date_list budget' balance))))"

subsection \<open>Notions used in the statements\<close>

text \<open>The four cycles that advance the due date of a \<open>Date\<close> item.\<close>

definition advancing :: "CycleEnum \<Rightarrow> bool" where
  "advancing c = (c = BIWEEKLY \<or> c = BIMONTHLY \<or> c = QUARTERLY \<or> c = YEARLY)"

text \<open>
  The step of an advancing cycle, in the words of the specification: two weeks for
  BIWEEKLY, two, three and twelve months for BIMONTHLY, QUARTERLY and YEARLY, and no
  step for the other cycles.
\<close>

definition cycle_step :: "CycleEnum \<Rightarrow> date \<Rightarrow> (error + date) option" where
  "cycle_step c d =
     (case c of
        BIWEEKLY \<Rightarrow> Some (add_weeks d 2)
      | BIMONTHLY \<Rightarrow> Some (add_months d 2)
      | QUARTERLY \<Rightarrow> Some (add_months d 3)
      | YEARLY \<Rightarrow> Some (add_months d 12)
      | _ \<Rightarrow> None)"




text \<open>
  The frame of a call: the fields other than \<^verbatim>\<open>due_date\<close> keep their values,
  and an item that is not of kind \<open>Date\<close> is unchanged.
\<close>

definition only_due_date_changed :: "('n, 'a) BudgetItem \<Rightarrow> ('n, 'a) BudgetItem \<Rightarrow> bool" where
  "only_due_date_changed item item' =
     (name item' = name item \<and> amount item' = amount item \<and> cycle item' = cycle item \<and>
      due_date_type item' = due_date_type item \<and>
      (due_date_type item \<noteq> Some Date \<longrightarrow> item' = item))"

definition kept_unless_advancing :: "('n, 'a) BudgetItem \<Rightarrow> ('n, 'a) BudgetItem \<Rightarrow> bool" where
  "kept_unless_advancing item item' = (\<not> advancing (cycle item) \<longrightarrow> item' = item)"



text \<open>The months counted from the year 0: it orders dates of different months.\<close>

definition month_index :: "date \<Rightarrow> int" where
  "month_index d = 12 * year d + month d"

section \<open>Properties\<close>

subsection \<open>Days and dates\<close>

lemma days_in_month_bounds: "28 \<le> days_in_month y m \<and> days_in_month y m \<le> 31"
  by (simp add: days_in_month_def)

lemma date_less_irrefl: "\<not> date_less d d"
  by (simp add: date_less_def)

lemma date_less_trans: "date_less a b \<Longrightarrow> date_less b c \<Longrightarrow> date_less a c"
  unfolding date_less_def by linarith

lemma date_less_asym: "date_less a b \<Longrightarrow> \<not> date_less b a"
  unfolding date_less_def by linarith


lemma next_day_less: "next_day d = Inr d' \<Longrightarrow> date_less d d'"
  by (auto simp: next_day_def date_less_def split: if_splits)

lemma next_day_error: "next_day d = Inl e \<Longrightarrow> e = DateOutOfRange"
  by (auto simp: next_day_def split: if_splits)

lemma next_day_valid: "valid_date d \<Longrightarrow> next_day d = Inr d' \<Longrightarrow> valid_date d'"
  using days_in_month_bounds[of "year d" "month d + 1"] days_in_month_bounds[of "year d + 1" 1]
  by (auto simp: next_day_def valid_date_def split: if_splits)

lemma prev_day_less: "valid_date d \<Longrightarrow> prev_day d = Inr d' \<Longrightarrow> date_less d' d"
  by (auto simp: prev_day_def date_less_def valid_date_def split: if_splits)

lemma days_in_december: "days_in_month y 12 = 31"
  by (simp add: days_in_month_def)

lemma prev_day_valid: "valid_date d \<Longrightarrow> prev_day d = Inr d' \<Longrightarrow> valid_date d'"
  using days_in_month_bounds[of "year d" "month d - 1"]
  by (auto simp: prev_day_def valid_date_def days_in_december split: if_splits)

lemma prev_day_next_day: "valid_date d \<Longrightarrow> prev_day d = Inr d' \<Longrightarrow> next_day d' = Inr d"
  by (cases d) (auto simp: prev_day_def next_day_def valid_date_def days_in_december split: if_splits)

lemma next_day_prev_day: "valid_date d \<Longrightarrow> next_day d = Inr d' \<Longrightarrow> prev_day d' = Inr d"
  by (cases d) (auto simp: prev_day_def next_day_def valid_date_def days_in_december split: if_splits)

lemma isoweekday_range: "1 \<le> isoweekday d \<and> isoweekday d \<le> 7"
proof -
  have "0 \<le> toordinal d mod 7 \<and> toordinal d mod 7 < 7" by simp
  then show ?thesis unfolding isoweekday_def Let_def by (auto split: if_splits)
qed

subsection \<open>Adding months\<close>

lemma add_months_index:
  "add_months d n = Inr r \<Longrightarrow> 12 * year r + month r = 12 * year d + month d + n"
proof -
  assume a: "add_months d n = Inr r"
  define i where "i = month d - 1 + n"
  from a have "year r = year d + i div 12" "month r = i mod 12 + 1"
    by (auto simp: add_months_def mk_date_def Let_def i_def split: if_splits)
  then have "12 * year r + month r = 12 * year d + (12 * (i div 12) + i mod 12) + 1" by simp
  also have "\<dots> = 12 * year d + i + 1" by simp
  finally show ?thesis by (simp add: i_def)
qed

lemma add_months_valid: "add_months d n = Inr r \<Longrightarrow> valid_date r"
  by (auto simp: add_months_def mk_date_def Let_def split: if_splits)

lemma add_months_day:
  "add_months d n = Inr r \<Longrightarrow> day r = min (day d) (days_in_month (year r) (month r))"
  by (auto simp: add_months_def mk_date_def Let_def split: if_splits)

lemma add_months_error: "add_months d n = Inl e \<Longrightarrow> e = DateOutOfRange"
  by (auto simp: add_months_def mk_date_def Let_def split: if_splits)

lemma add_months_fails:
  assumes v: "valid_date d" and a: "add_months d n = Inl e"
  shows "12 * year d + month d + n < 13 \<or> 120000 < 12 * year d + month d + n"
proof -
  define i where "i = month d - 1 + n"
  define y where "y = year d + i div 12"
  define m where "m = i mod 12 + 1"
  have m: "1 \<le> m \<and> m \<le> 12" by (simp add: m_def)
  have dd: "1 \<le> min (day d) (days_in_month y m)"
    using v days_in_month_bounds[of y m] by (simp add: valid_date_def)
  from a have "\<not> valid_date \<lparr>year = y, month = m, day = min (day d) (days_in_month y m)\<rparr>"
    by (auto simp: add_months_def mk_date_def Let_def i_def y_def m_def split: if_splits)
  with m dd have yr: "y < 1 \<or> 9999 < y" by (auto simp: valid_date_def)
  have "12 * y + m = 12 * year d + (12 * (i div 12) + i mod 12) + 1" by (simp add: y_def m_def)
  also have "\<dots> = 12 * year d + month d + n" by (simp add: i_def)
  finally have "12 * y + m = 12 * year d + month d + n" .
  with yr m show ?thesis by linarith
qed

text \<open>
  Claim C5, as the code has it. For every date \<open>d\<close> and integer \<open>n\<close>,
  \<^verbatim>\<open>add_months(d, n)\<close> either returns the date \<open>r\<close> whose month is the month
  of \<open>d\<close> advanced by \<open>n\<close>, the year wrapped as needed (twelve times the year plus
  the month grows by exactly \<open>n\<close>, and \<open>r\<close> is a date, so its month lies between
  1 and 12), and whose day is the day of \<open>d\<close> clamped to the last day of that
  month; or it raises, which it does exactly when the year of that month is not
  between 1 and 9999. In particular
  \<^verbatim>\<open>add_months(date(2024,1,31), 1) == date(2024,2,29)\<close>.
\<close>

theorem add_months_correct:
  assumes "valid_date d"
  shows "(case add_months d n of
            Inr r \<Rightarrow> valid_date r \<and> 12 * year r + month r = 12 * year d + month d + n \<and>
                     day r = min (day d) (days_in_month (year r) (month r))
          | Inl e \<Rightarrow> e = DateOutOfRange \<and>
                     (12 * year d + month d + n < 13 \<or> 120000 < 12 * year d + month d + n)) \<and>
         add_months \<lparr>year = 2024, month = 1, day = 31\<rparr> 1 = Inr \<lparr>year = 2024, month = 2, day = 29\<rparr>"
proof -
  have ex: "add_months \<lparr>year = 2024, month = 1, day = 31\<rparr> 1 = Inr \<lparr>year = 2024, month = 2, day = 29\<rparr>"
    by (simp add: add_months_def mk_date_def valid_date_def days_in_month_def isleap_def)
  show ?thesis
  proof (cases "add_months d n")
    case (Inl e)
    with assms add_months_error[OF Inl] add_months_fails[OF assms Inl] ex show ?thesis by simp
  next
    case (Inr r)
    with add_months_valid[OF Inr] add_months_index[OF Inr] add_months_day[OF Inr] ex
    show ?thesis by simp
  qed
qed

theorem add_months_correct_witness:
  "valid_date \<lparr>year = 2023, month = 11, day = 30\<rparr> \<and>
   add_months \<lparr>year = 2023, month = 11, day = 30\<rparr> 3 = Inr \<lparr>year = 2024, month = 2, day = 29\<rparr> \<and>
   valid_date \<lparr>year = 2024, month = 2, day = 29\<rparr> \<and>
   12 * 2024 + 2 = 12 * 2023 + 11 + (3::int)"
proof -
  have v: "valid_date \<lparr>year = 2023, month = 11, day = 30\<rparr>"
    by (simp add: valid_date_def days_in_month_def)
  have a: "add_months \<lparr>year = 2023, month = 11, day = 30\<rparr> 3 = Inr \<lparr>year = 2024, month = 2, day = 29\<rparr>"
    by (simp add: add_months_def mk_date_def valid_date_def days_in_month_def isleap_def)
  from add_months_correct[OF v, of 3] v a show ?thesis by simp
qed

text \<open>
  The claim C5 as the specification states it, "no error conditions", fails on the
  last month of the year 9999: the constructor \<^verbatim>\<open>date(10000, 1, 31)\<close> raises.
\<close>

theorem add_months_raises:
  "valid_date \<lparr>year = 9999, month = 12, day = 31\<rparr> \<and>
   add_months \<lparr>year = 9999, month = 12, day = 31\<rparr> 1 = Inl DateOutOfRange"
  by (simp add: add_months_def mk_date_def valid_date_def days_in_month_def)

subsection \<open>Counting days\<close>

lemma prev_day_error: "prev_day d = Inl e \<Longrightarrow> e = DateOutOfRange"
  by (auto simp: prev_day_def split: if_splits)

lemma iter_day_error:
  "(\<And>x e. f x = Inl e \<Longrightarrow> e = DateOutOfRange) \<Longrightarrow> iter_day f k d = Inl e \<Longrightarrow> e = DateOutOfRange"
  by (induction k arbitrary: d) (auto split: sum.splits)

lemma add_days_error: "add_days d n = Inl e \<Longrightarrow> e = DateOutOfRange"
  using iter_day_error[of next_day] iter_day_error[of prev_day] next_day_error prev_day_error
  by (auto simp: add_days_def split: if_splits)

lemma add_weeks_error: "add_weeks d n = Inl e \<Longrightarrow> e = DateOutOfRange"
  by (simp add: add_weeks_def add_days_error)

lemma iter_day_add:
  "iter_day f (j + k) d = (case iter_day f j d of Inl e \<Rightarrow> Inl e | Inr d' \<Rightarrow> iter_day f k d')"
  by (induction j arbitrary: d) (auto split: sum.splits)

lemma iter_next_valid:
  "valid_date d \<Longrightarrow> iter_day next_day k d = Inr d' \<Longrightarrow> valid_date d'"
  by (induction k arbitrary: d) (auto split: sum.splits dest: next_day_valid)

lemma iter_prev_valid:
  "valid_date d \<Longrightarrow> iter_day prev_day k d = Inr d' \<Longrightarrow> valid_date d'"
  by (induction k arbitrary: d) (auto split: sum.splits dest: prev_day_valid)

lemma iter_next_less:
  "0 < k \<Longrightarrow> iter_day next_day k d = Inr d' \<Longrightarrow> date_less d d'"
proof (induction k arbitrary: d)
  case 0
  then show ?case by simp
next
  case (Suc k)
  from Suc.prems obtain d1 where d1: "next_day d = Inr d1" "iter_day next_day k d1 = Inr d'"
    by (auto split: sum.splits)
  show ?case
  proof (cases k)
    case 0
    with d1 show ?thesis by (simp add: next_day_less)
  next
    case (Suc j)
    with Suc.IH[OF _ d1(2)] have "date_less d1 d'" by simp
    with next_day_less[OF d1(1)] show ?thesis by (rule date_less_trans)
  qed
qed

lemma iter_prev_next:
  "valid_date d \<Longrightarrow> iter_day prev_day k d = Inr d' \<Longrightarrow> iter_day next_day k d' = Inr d"
proof (induction k arbitrary: d d')
  case 0
  then show ?case by simp
next
  case (Suc k)
  from Suc.prems obtain d1 where d1: "prev_day d = Inr d1" "iter_day prev_day k d1 = Inr d'"
    by (auto split: sum.splits)
  have v1: "valid_date d1" using Suc.prems(1) d1(1) by (rule prev_day_valid)
  have "iter_day next_day k d' = Inr d1" using v1 d1(2) by (rule Suc.IH)
  moreover have "next_day d1 = Inr d" using Suc.prems(1) d1(1) by (rule prev_day_next_day)
  ultimately have "iter_day next_day (k + 1) d' = Inr d"
    by (simp only: iter_day_add) simp
  then show ?case by simp
qed

lemma add_days_valid: "valid_date d \<Longrightarrow> add_days d n = Inr d' \<Longrightarrow> valid_date d'"
  by (auto simp: add_days_def split: if_splits dest: iter_next_valid iter_prev_valid)

lemma add_days_less: "0 < n \<Longrightarrow> add_days d n = Inr d' \<Longrightarrow> date_less d d'"
  using iter_next_less[of "nat n" d d'] by (simp add: add_days_def)

lemma add_days_zero: "add_days d 0 = Inr d"
  by (simp add: add_days_def)




lemma iter_day_prefix:
  "iter_day f k d = Inr d' \<Longrightarrow> j \<le> k \<Longrightarrow> \<exists>d''. iter_day f j d = Inr d''"
proof -
  assume a: "iter_day f k d = Inr d'" and le: "j \<le> k"
  then have "k = j + (k - j)" by simp
  with a have "iter_day f (j + (k - j)) d = Inr d'" by simp
  then show ?thesis by (simp only: iter_day_add) (auto split: sum.splits)
qed

lemma add_days_prefix:
  "add_days d n = Inr d' \<Longrightarrow> 0 \<le> m \<Longrightarrow> m \<le> n \<Longrightarrow> \<exists>d''. add_days d m = Inr d''"
  using iter_day_prefix[of next_day "nat n" d d' "nat m"] by (simp add: add_days_def)

subsection \<open>The window of the forecast\<close>

lemma collect_nth:
  "collect f xs = Inr ys \<Longrightarrow> length ys = length xs \<and> (\<forall>i<length xs. f (xs ! i) = Inr (ys ! i))"
proof (induction xs arbitrary: ys)
  case Nil
  then show ?case by simp
next
  case (Cons x xs)
  from Cons.prems obtain y ys' where y: "f x = Inr y" "collect f xs = Inr ys'" "ys = y # ys'"
    by (auto split: sum.splits)
  from Cons.IH[OF y(2)] y(1,3) show ?case by (auto simp: nth_Cons split: nat.splits)
qed

lemma collect_error: "collect f xs = Inl e \<Longrightarrow> \<exists>x\<in>set xs. f x = Inl e"
  by (induction xs) (auto split: sum.splits)

lemma date_list_of_nth:
  assumes "date_list_of start duration = Inr dl"
  shows "length dl = nat (duration * 7) \<and> (\<forall>i<length dl. add_days start (int i) = Inr (dl ! i))"
  using collect_nth[OF assms[unfolded date_list_of_def]] by simp

lemma date_list_of_error: "date_list_of start duration = Inl e \<Longrightarrow> e = DateOutOfRange"
  by (auto simp: date_list_of_def dest!: collect_error add_days_error)

lemma date_list_of_exists:
  assumes "add_days start (7 * duration) = Inr end_day"
  shows "\<exists>dl. date_list_of start duration = Inr dl"
proof (cases "date_list_of start duration")
  case (Inr dl)
  then show ?thesis by simp
next
  case (Inl e)
  then obtain x where x: "x < nat (duration * 7)" "add_days start (int x) = Inl e"
    by (auto simp: date_list_of_def dest!: collect_error)
  from x(1) have "0 \<le> int x" "int x \<le> 7 * duration" by linarith+
  from add_days_prefix[OF assms this] x(2) show ?thesis by simp
qed

lemma add_days_int: "add_days d (int k) = iter_day next_day k d"
  by (simp add: add_days_def)

lemma add_days_add:
  assumes "add_days d (int i) = Inr a"
  shows "add_days d (int (i + k)) = add_days a (int k)"
proof -
  have "iter_day next_day (i + k) d =
          (case iter_day next_day i d of Inl e \<Rightarrow> Inl e | Inr d' \<Rightarrow> iter_day next_day k d')"
    by (rule iter_day_add)
  also have "\<dots> = iter_day next_day k a"
    using assms unfolding add_days_int by simp
  finally show ?thesis unfolding add_days_int .
qed

lemma add_days_Suc:
  assumes "add_days d (int i) = Inr a"
  shows "add_days d (int (Suc i)) = next_day a"
proof -
  have "add_days d (int (i + 1)) = add_days a (int 1)" using assms by (rule add_days_add)
  also have "\<dots> = next_day a" unfolding add_days_int by (simp split: sum.splits)
  finally show ?thesis by simp
qed

lemma date_list_of_first:
  assumes "date_list_of start duration = Inr dl" "1 \<le> duration"
  shows "\<exists>rest. dl = start # rest"
proof -
  from date_list_of_nth[OF assms(1)] assms(2) have l: "0 < length dl" by simp
  with date_list_of_nth[OF assms(1)] have "add_days start (int 0) = Inr (dl ! 0)" by blast
  then have "dl ! 0 = start" unfolding add_days_int by simp
  with l show ?thesis by (cases dl) auto
qed

lemma date_list_of_consecutive:
  assumes "date_list_of start duration = Inr dl" "Suc i < length dl"
  shows "next_day (dl ! i) = Inr (dl ! Suc i)"
proof -
  from date_list_of_nth[OF assms(1)] assms(2)
  have a: "add_days start (int i) = Inr (dl ! i)" and b: "add_days start (int (Suc i)) = Inr (dl ! Suc i)"
    by auto
  from add_days_Suc[OF a] b show ?thesis by simp
qed

lemma date_list_of_less:
  assumes "date_list_of start duration = Inr dl" "i < j" "j < length dl"
  shows "date_less (dl ! i) (dl ! j)"
proof -
  from date_list_of_nth[OF assms(1)] assms(2,3)
  have a: "add_days start (int i) = Inr (dl ! i)" and b: "add_days start (int j) = Inr (dl ! j)"
    by auto
  from assms(2) have j: "j = i + (j - i)" by simp
  from add_days_add[OF a, of "j - i"] b j have "add_days (dl ! i) (int (j - i)) = Inr (dl ! j)" by simp
  with assms(2) show ?thesis using add_days_less[of "int (j - i)" "dl ! i" "dl ! j"] by simp
qed

lemma date_list_of_sorted:
  "date_list_of start duration = Inr dl \<Longrightarrow> sorted_wrt date_less dl"
  by (simp add: sorted_wrt_iff_nth_less date_list_of_less)


lemma date_list_of_valid:
  assumes "valid_date start" "date_list_of start duration = Inr dl"
  shows "\<forall>t\<in>set dl. valid_date t"
proof
  fix t assume "t \<in> set dl"
  then obtain i where i: "i < length dl" "dl ! i = t" by (auto simp: in_set_conv_nth)
  with date_list_of_nth[OF assms(2)] have "add_days start (int i) = Inr t" by auto
  with assms(1) show "valid_date t" by (rule add_days_valid)
qed

subsection \<open>The loop of phase 1\<close>




lemma advance_until_error:
  assumes "advance_until step first d = Some r"
  shows "r = Inl e \<longrightarrow> (\<exists>x. step x = Inl e)"
proof (rule advance_until.raw_induct
    [where P = "\<lambda>step first d r. r = Inl e \<longrightarrow> (\<exists>x. step x = Inl e)", OF _ assms])
  fix au step first d r
  assume IH: "\<And>step first d r. au step first d = Some r \<Longrightarrow> r = Inl e \<longrightarrow> (\<exists>x. step x = Inl e)"
    and eq: "(if date_less d first
              then case step d of Inl e \<Rightarrow> Some (Inl e) | Inr d' \<Rightarrow> au step first d'
              else Some (Inr d)) = Some r"
  show "r = Inl e \<longrightarrow> (\<exists>x. step x = Inl e)"
  proof (cases "date_less d first")
    case False
    with eq show ?thesis by auto
  next
    case True
    show ?thesis
    proof (cases "step d")
      case (Inl e')
      with True eq show ?thesis by auto
    next
      case (Inr y)
      with True eq have "au step first y = Some r" by simp
      from IH[OF this] show ?thesis .
    qed
  qed
qed













lemma normalize_other_kind:
  "due_date_type item \<noteq> Some Date \<Longrightarrow> normalize date_list item = Some (Inr item)"
  by (simp add: normalize_def)




subsection \<open>The steps of phase 2\<close>

lemma only_due_date_changed_refl: "only_due_date_changed item item"
  by (simp add: only_due_date_changed_def)

lemma only_due_date_changed_trans:
  "only_due_date_changed a b \<Longrightarrow> only_due_date_changed b c \<Longrightarrow> only_due_date_changed a c"
  by (auto simp: only_due_date_changed_def)


lemma item_step_frame:
  "item_step t item s = Inr (s', item') \<Longrightarrow> only_due_date_changed item item'"
  by (auto simp: item_step_def only_due_date_changed_def split: if_splits due_value.splits sum.splits)


lemma item_step_error:
  "item_step t item s = Inl e \<Longrightarrow> e = DateOutOfRange \<or> e = AttributeError"
  by (auto simp: item_step_def split: if_splits due_value.splits sum.splits
      dest: add_weeks_error add_months_error)


lemma day_step_frame:
  "day_step t budget s = Inr (s', budget') \<Longrightarrow> list_all2 only_due_date_changed budget budget'"
proof (induction budget arbitrary: s s' budget')
  case Nil
  then show ?case by simp
next
  case (Cons item budget)
  from Cons.prems obtain s1 item1 budget1 where
    a: "item_step t item s = Inr (s1, item1)" and b: "day_step t budget s1 = Inr (s', budget1)"
    and c: "budget' = item1 # budget1"
    by (auto split: sum.splits)
  from item_step_frame[OF a] Cons.IH[OF b] c show ?case by simp
qed


lemma day_step_error:
  "day_step t budget s = Inl e \<Longrightarrow> e = DateOutOfRange \<or> e = AttributeError"
  by (induction budget arbitrary: s) (auto split: sum.splits prod.splits dest: item_step_error)

lemma walk_days_dates:
  "walk_days dl budget bal = Inr (entries, final, budget') \<Longrightarrow> map on_date entries = dl"
proof (induction dl arbitrary: budget bal entries final budget')
  case Nil
  then show ?case by simp
next
  case (Cons t ts)
  from Cons.prems obtain bal1 tr budget1 entries1 where
    a: "day_step t budget (bal, Map.empty) = Inr ((bal1, tr), budget1)"
    and b: "walk_days ts budget1 bal1 = Inr (entries1, final, budget')"
    and c: "entries = \<lparr>on_date = t, end_balance = bal1, trans = tr\<rparr> # entries1"
    by (auto split: sum.splits prod.splits)
  from Cons.IH[OF b] c show ?case by simp
qed

lemma list_all2_only_due_date_changed_trans:
  "list_all2 only_due_date_changed xs ys \<Longrightarrow> list_all2 only_due_date_changed ys zs \<Longrightarrow>
   list_all2 only_due_date_changed xs zs"
  by (rule list_all2_trans[of only_due_date_changed only_due_date_changed only_due_date_changed])
     (auto intro: only_due_date_changed_trans)

lemma only_due_date_changed_cycle:
  "only_due_date_changed a b \<Longrightarrow> cycle b = cycle a"
  by (simp add: only_due_date_changed_def)

lemma walk_days_frame:
  "walk_days dl budget bal = Inr (entries, final, budget') \<Longrightarrow>
   list_all2 only_due_date_changed budget budget'"
proof (induction dl arbitrary: budget bal entries final budget')
  case Nil
  then show ?case by (simp add: list_all2_refl only_due_date_changed_refl)
next
  case (Cons t ts)
  from Cons.prems obtain bal1 tr budget1 entries1 where
    a: "day_step t budget (bal, Map.empty) = Inr ((bal1, tr), budget1)"
    and b: "walk_days ts budget1 bal1 = Inr (entries1, final, budget')"
    by (auto split: sum.splits prod.splits)
  from day_step_frame[OF a] Cons.IH[OF b] show ?case
    by (rule list_all2_only_due_date_changed_trans)
qed


lemma walk_days_error:
  "walk_days dl budget bal = Inl e \<Longrightarrow> e = DateOutOfRange \<or> e = AttributeError"
  by (induction dl arbitrary: budget bal) (auto split: sum.splits prod.splits dest: day_step_error)

lemma normalize_frame:
  assumes "normalize dl item = Some (Inr item')"
  shows "only_due_date_changed item item' \<and> kept_unless_advancing item item'"
proof -
  have "set_due_date item r = Inr item' \<Longrightarrow> due_date_type item = Some Date \<Longrightarrow>
        only_due_date_changed item item'" for r
    by (cases r) (auto simp: set_due_date_def only_due_date_changed_def)
  with assms show ?thesis
    by (auto simp: normalize_def kept_unless_advancing_def advancing_def only_due_date_changed_refl
        split: if_splits sum.splits prod.splits)
qed

lemma normalize_all_frame:
  "normalize_all dl budget = Some (Inr budget') \<Longrightarrow>
   list_all2 only_due_date_changed budget budget' \<and> list_all2 kept_unless_advancing budget budget'"
proof (induction budget arbitrary: budget')
  case Nil
  then show ?case by simp
next
  case (Cons item budget)
  from Cons.prems obtain item1 budget1 where
    a: "normalize dl item = Some (Inr item1)" and b: "normalize_all dl budget = Some (Inr budget1)"
    and c: "budget' = item1 # budget1"
    by (auto split: option.splits sum.splits)
  from normalize_frame[OF a] Cons.IH[OF b] c show ?case by simp
qed

lemma forecast_result:
  assumes "forecast balance start duration budget = Some (Inr (entries, final, budget'))"
  obtains end_day dl budget1 where
    "add_days start (7 * duration) = Inr end_day"
    "date_list_of start duration = Inr dl"
    "normalize_all dl budget = Some (Inr budget1)"
    "walk_days dl budget1 balance = Inr (entries, final, budget')"
  using assms by (auto simp: forecast_def split: sum.splits option.splits)


subsection \<open>Evaluation on concrete inputs\<close>

lemmas date_eval = valid_date_def days_in_month_def isleap_def next_day_def prev_day_def
  add_days_def add_weeks_def add_months_def mk_date_def date_less_def

lemmas engine_eval = forecast_def date_list_of_def normalize_def phase1_operands_def
  set_due_date_def item_step_def apply_item_def advance_until.simps
  toordinal_def isoweekday_def days_before_year_def days_before_month_def DayOfWeek_of_def

lemma upt_7: "[0..<7] = [0, 1, 2, 3, 4, 5, 6]"
  by (simp add: upt_rec)


subsection \<open>The decoder\<close>









subsection \<open>Errors of the two phases\<close>

lemma normalize_empty_window:
  "due_date_type item = Some Date \<Longrightarrow> due_date item \<noteq> Unset \<Longrightarrow>
   normalize [] item = Some (Inl IndexError)"
  by (simp add: normalize_def phase1_operands_def)

lemma normalize_all_empty_window:
  assumes "\<exists>item\<in>set budget. due_date_type item = Some Date"
    and "\<forall>item\<in>set budget. due_date_type item = Some Date \<longrightarrow> due_date item \<noteq> Unset"
  shows "normalize_all [] budget = Some (Inl IndexError)"
  using assms
proof (induction budget)
  case Nil
  then show ?case by simp
next
  case (Cons item budget)
  show ?case
  proof (cases "due_date_type item = Some Date")
    case True
    with Cons.prems(2) have "normalize [] item = Some (Inl IndexError)"
      by (simp add: normalize_empty_window)
    then show ?thesis by simp
  next
    case False
    then have n: "normalize [] item = Some (Inr item)" by (rule normalize_other_kind)
    from False Cons.prems have "normalize_all [] budget = Some (Inl IndexError)"
      by (intro Cons.IH) auto
    with n show ?thesis by simp
  qed
qed

lemma date_list_of_zero: "date_list_of start 0 = Inr []"
  by (simp add: date_list_of_def)

lemma set_due_date_error: "set_due_date item r = Inl e \<Longrightarrow> r = Inl e"
  by (cases r) (simp_all add: set_due_date_def)

lemma normalize_error:
  assumes "normalize (first # rest) item = Some (Inl e)"
  shows "e = DateOutOfRange \<or> e = TypeError \<or> e = AttributeError"
proof -
  have loop: "map_option (set_due_date item) (advance_until step f d) = Some (Inl e) \<Longrightarrow>
        (\<And>x e. step x = Inl e \<Longrightarrow> e = DateOutOfRange) \<Longrightarrow> e = DateOutOfRange" for step f d
  proof -
    assume a: "map_option (set_due_date item) (advance_until step f d) = Some (Inl e)"
      and st: "\<And>x e. step x = Inl e \<Longrightarrow> e = DateOutOfRange"
    from a obtain r where r: "advance_until step f d = Some r" "set_due_date item r = Inl e"
      by auto
    from set_due_date_error[OF r(2)] have "r = Inl e" .
    with advance_until_error[OF r(1), of e] st show "e = DateOutOfRange" by blast
  qed
  show ?thesis
  proof (cases "due_date_type item = Some Date")
    case False
    with assms show ?thesis by (simp add: normalize_def)
  next
    case True
    show ?thesis
    proof (cases "phase1_operands (due_date item) (first # rest)")
      case (Inl e')
      with assms True have "e' = e" by (simp add: normalize_def)
      with Inl show ?thesis
        by (auto simp: phase1_operands_def split: if_splits due_value.splits)
    next
      case (Inr p)
      obtain d f where p: "p = (d, f)" by (cases p)
      from assms True Inr p have
        "map_option (set_due_date item) (advance_until (\<lambda>x. add_weeks x 2) f d) = Some (Inl e) \<or>
         map_option (set_due_date item) (advance_until (\<lambda>x. add_months x 2) f d) = Some (Inl e) \<or>
         map_option (set_due_date item) (advance_until (\<lambda>x. add_months x 3) f d) = Some (Inl e) \<or>
         map_option (set_due_date item) (advance_until (\<lambda>x. add_months x 12) f d) = Some (Inl e)"
        by (simp add: normalize_def split: if_splits)
      then have "e = DateOutOfRange"
        using loop[of "\<lambda>x. add_weeks x 2" f d] loop[of "\<lambda>x. add_months x 2" f d]
          loop[of "\<lambda>x. add_months x 3" f d] loop[of "\<lambda>x. add_months x 12" f d]
          add_weeks_error add_months_error by blast
      then show ?thesis by simp
    qed
  qed
qed

lemma normalize_all_error:
  "normalize_all (first # rest) budget = Some (Inl e) \<Longrightarrow>
   e = DateOutOfRange \<or> e = TypeError \<or> e = AttributeError"
proof (induction budget)
  case Nil
  then show ?case by simp
next
  case (Cons item budget)
  then show ?case
    by (auto split: option.splits sum.splits dest: normalize_error)
qed

subsection \<open>The transactions of a day\<close>



subsection \<open>Items of kind Date in phase 2\<close>



lemma item_step_date:
  assumes "due_date_type item = Some Date" "due_date item = DateVal d"
  shows "item_step t item s =
     (if t = d then
        (case cycle_step (cycle item) d of
           None \<Rightarrow> Inr (apply_item item s, item)
         | Some (Inl e) \<Rightarrow> Inl e
         | Some (Inr d') \<Rightarrow> Inr (apply_item item s, item\<lparr>due_date := DateVal d'\<rparr>))
      else Inr (s, item))"
  using assms by (cases "cycle item") (auto simp: item_step_def cycle_step_def split: sum.splits)



subsection \<open>A window within a month of a date\<close>

lemma month_index_less:
  "valid_date a \<Longrightarrow> valid_date b \<Longrightarrow> month_index a < month_index b \<Longrightarrow> date_less a b"
  by (auto simp: valid_date_def month_index_def date_less_def)

lemma iter_day_Suc_end:
  "iter_day f (Suc k) d = (case iter_day f k d of Inl e \<Rightarrow> Inl e | Inr d' \<Rightarrow> f d')"
proof -
  have "iter_day f (k + 1) d = (case iter_day f k d of Inl e \<Rightarrow> Inl e | Inr d' \<Rightarrow> iter_day f 1 d')"
    by (rule iter_day_add)
  then show ?thesis by (simp split: sum.splits)
qed

lemma next_day_month_index:
  assumes "valid_date t" "next_day t = Inr t'"
  shows "(month_index t' = month_index t \<and> day t' = day t + 1) \<or>
         (month_index t' = month_index t + 1 \<and> day t' = 1 \<and> 28 \<le> day t)"
  using assms days_in_month_bounds[of "year t" "month t"]
  by (auto simp: next_day_def month_index_def valid_date_def split: if_splits)

lemma iter_next_month_index:
  "valid_date d \<Longrightarrow> iter_day next_day k d = Inr t \<Longrightarrow> k \<le> 27 \<Longrightarrow>
   (month_index t = month_index d \<and> day t = day d + int k) \<or>
   (month_index t = month_index d + 1 \<and> day t \<le> int k)"
proof (induction k arbitrary: t)
  case 0
  then show ?case by simp
next
  case (Suc k)
  from Suc.prems(2) obtain t0 where t0: "iter_day next_day k d = Inr t0" "next_day t0 = Inr t"
    by (auto simp only: iter_day_Suc_end split: sum.splits)
  from Suc.prems(3) have k: "k \<le> 27" "int k \<le> 26" by simp_all
  from Suc.IH[OF Suc.prems(1) t0(1) k(1)]
  have inv: "(month_index t0 = month_index d \<and> day t0 = day d + int k) \<or>
             (month_index t0 = month_index d + 1 \<and> day t0 \<le> int k)" .
  have v0: "valid_date t0" using Suc.prems(1) t0(1) by (rule iter_next_valid)
  from next_day_month_index[OF v0 t0(2)] inv k(2) show ?case by auto
qed

lemma next_day_succeeds:
  "valid_date t \<Longrightarrow> month_index t \<le> 12 * 9999 + 1 \<Longrightarrow> \<exists>t'. next_day t = Inr t'"
  by (auto simp: next_day_def month_index_def valid_date_def)

lemma iter_next_succeeds:
  "valid_date d \<Longrightarrow> year d < 9999 \<Longrightarrow> k \<le> 28 \<Longrightarrow> \<exists>t. iter_day next_day k d = Inr t"
proof (induction k)
  case 0
  then show ?case by simp
next
  case (Suc k)
  then obtain t0 where t0: "iter_day next_day k d = Inr t0" by auto
  have v0: "valid_date t0" using Suc.prems(1) t0 by (rule iter_next_valid)
  from Suc.prems(3) have "k \<le> 27" by simp
  from iter_next_month_index[OF Suc.prems(1) t0 this] have "month_index t0 \<le> month_index d + 1"
    by auto
  moreover from Suc.prems(1,2) have "month_index d \<le> 12 * 9998 + 12"
    by (simp add: month_index_def valid_date_def)
  ultimately have "month_index t0 \<le> 12 * 9999 + 1" by simp
  from next_day_succeeds[OF v0 this] t0 show ?case
    by (simp only: iter_day_Suc_end) auto
qed

lemma add_months_12:
  assumes "valid_date d" "year d < 9999"
  shows "\<exists>d'. add_months d 12 = Inr d' \<and> valid_date d' \<and> month_index d' = month_index d + 12"
proof (cases "add_months d 12")
  case (Inl e)
  from add_months_fails[OF assms(1) Inl] assms show ?thesis by (simp add: valid_date_def)
next
  case (Inr d')
  from add_months_index[OF Inr] add_months_valid[OF Inr] Inr show ?thesis
    by (simp add: month_index_def)
qed

lemma item_step_other_day:
  "due_date_type item = Some Date \<Longrightarrow> due_date item = DateVal d \<Longrightarrow> t \<noteq> d \<Longrightarrow>
   item_step t item s = Inr (s, item)"
  by (simp add: item_step_date)

lemma walk_days_idle:
  assumes "due_date_type item = Some Date" "due_date item = DateVal d" "d \<notin> set dl"
  shows "walk_days dl [item] bal =
           Inr (map (\<lambda>t. \<lparr>on_date = t, end_balance = bal, trans = Map.empty\<rparr>) dl, bal, [item])"
  using assms(3)
proof (induction dl)
  case Nil
  then show ?case by simp
next
  case (Cons t ts)
  then have "t \<noteq> d" "d \<notin> set ts" by auto
  from item_step_other_day[OF assms(1,2) this(1)] Cons.IH[OF this(2)] show ?case by simp
qed

section \<open>The claims\<close>

subsection \<open>The timeline (C1)\<close>

text \<open>
  Claim C1, as the code has it. For every call
  \<^verbatim>\<open>forecast(balance, start, duration, items)\<close> that returns, the timeline has
  exactly \<open>nat (duration * 7)\<close> entries (that is \<open>duration * 7\<close> when the duration
  is not negative, and none otherwise), its entry \<open>i\<close> is dated \<open>i\<close> days after
  \<open>start\<close>, each entry is dated the day after the entry before it, the dates are
  in strictly increasing order, and they are the list of days computed from
  \<open>start\<close> and \<open>duration\<close> alone before the walk: nothing that happens during the
  walk extends or truncates it.
\<close>

theorem forecast_timeline:
  assumes "forecast balance start duration budget = Some (Inr (entries, final, budget'))"
  shows "length entries = nat (duration * 7) \<and>
         (\<forall>i<length entries. add_days start (int i) = Inr (on_date (entries ! i))) \<and>
         (\<forall>i. Suc i < length entries \<longrightarrow>
              next_day (on_date (entries ! i)) = Inr (on_date (entries ! Suc i))) \<and>
         sorted_wrt date_less (map on_date entries) \<and>
         date_list_of start duration = Inr (map on_date entries)"
proof -
  from assms obtain end_day dl budget1 where
    dl: "date_list_of start duration = Inr dl"
    and w: "walk_days dl budget1 balance = Inr (entries, final, budget')"
    by (rule forecast_result)
  from walk_days_dates[OF w] have m: "map on_date entries = dl" .
  then have len: "length entries = length dl" by (metis length_map)
  have nth: "on_date (entries ! i) = dl ! i" if "i < length entries" for i
    using that m by (metis nth_map)
  from date_list_of_nth[OF dl] len nth
  have 1: "length entries = nat (duration * 7)"
    and 2: "\<forall>i<length entries. add_days start (int i) = Inr (on_date (entries ! i))"
    by auto
  have 3: "\<forall>i. Suc i < length entries \<longrightarrow>
              next_day (on_date (entries ! i)) = Inr (on_date (entries ! Suc i))"
    using date_list_of_consecutive[OF dl] len nth by auto
  from date_list_of_sorted[OF dl] m have 4: "sorted_wrt date_less (map on_date entries)" by simp
  from dl m have 5: "date_list_of start duration = Inr (map on_date entries)" by simp
  from 1 2 3 4 5 show ?thesis by blast
qed

theorem forecast_timeline_witness:
  "\<exists>entries final budget'.
     forecast (100::int) \<lparr>year = 2024, month = 2, day = 26\<rparr> 1
       [\<lparr>name = ''Food'', amount = - 36, cycle = DAILY, due_date_type = Some Daily,
         due_date = NoneVal\<rparr>] = Some (Inr (entries, final, budget')) \<and>
     length entries = 7 \<and>
     map on_date entries =
       [\<lparr>year = 2024, month = 2, day = 26\<rparr>, \<lparr>year = 2024, month = 2, day = 27\<rparr>,
        \<lparr>year = 2024, month = 2, day = 28\<rparr>, \<lparr>year = 2024, month = 2, day = 29\<rparr>,
        \<lparr>year = 2024, month = 3, day = 1\<rparr>, \<lparr>year = 2024, month = 3, day = 2\<rparr>,
        \<lparr>year = 2024, month = 3, day = 3\<rparr>]"
proof -
  let ?start = "\<lparr>year = 2024, month = 2, day = 26\<rparr>"
  let ?budget = "[\<lparr>name = ''Food'', amount = - 36 :: int, cycle = DAILY,
                   due_date_type = Some Daily, due_date = NoneVal\<rparr>]"
  have "\<exists>entries final budget'.
          forecast (100::int) ?start 1 ?budget = Some (Inr (entries, final, budget'))"
    by (simp add: engine_eval date_eval upt_7 eval_nat_numeral)
  then obtain entries final budget' where
    f: "forecast (100::int) ?start 1 ?budget = Some (Inr (entries, final, budget'))" by blast
  have dl: "date_list_of ?start 1 =
      Inr [\<lparr>year = 2024, month = 2, day = 26\<rparr>, \<lparr>year = 2024, month = 2, day = 27\<rparr>,
        \<lparr>year = 2024, month = 2, day = 28\<rparr>, \<lparr>year = 2024, month = 2, day = 29\<rparr>,
        \<lparr>year = 2024, month = 3, day = 1\<rparr>, \<lparr>year = 2024, month = 3, day = 2\<rparr>,
        \<lparr>year = 2024, month = 3, day = 3\<rparr>]"
    by (simp add: date_list_of_def date_eval upt_7 eval_nat_numeral)
  from forecast_timeline[OF f] dl f show ?thesis by simp
qed

text \<open>
  The claim C1 as the specification states it, "exactly duration*7 entries" for every
  call, fails for a negative duration: \<^verbatim>\<open>range(0, -7)\<close> is empty and the call
  returns an empty timeline.
\<close>

theorem forecast_negative_duration:
  "forecast (0::int) \<lparr>year = 2024, month = 1, day = 15\<rparr> (- 1) ([] :: (string, int) BudgetItem list)
     = Some (Inr ([], 0, [])) \<and>
   int (length ([] :: (string, int) entry list)) \<noteq> (- 1) * 7"
  by (simp add: engine_eval date_eval eval_nat_numeral)

subsection \<open>Phase 1 (C2)\<close>




subsection \<open>The constructor (C4)\<close>

text \<open>
  Claim C4, as the code has it. The constructor of \<^verbatim>\<open>BudgetItem\<close> never raises:
  it stores the name, the amount and the cycle, and the kind follows the type of the
  value passed as \<^verbatim>\<open>due_date\<close>. For a value that is not an integer, a day of the
  week, a date or \<^verbatim>\<open>None\<close>, the item it returns has \<^verbatim>\<open>due_date_type\<close>
  \<^verbatim>\<open>None\<close>, none of the four kinds, and no \<^verbatim>\<open>due_date\<close>; only for such a
  value is that so.
\<close>

theorem BudgetItem_init_never_raises:
  "\<exists>item. BudgetItem_init nm amt cyc arg = Inr item \<and>
      name item = nm \<and> amount item = amt \<and> cycle item = cyc \<and>
      (due_date_type item = None) = (arg = ArgOther) \<and>
      (due_date item = Unset) = (arg = ArgOther) \<and>
      due_date_type item =
        (case arg of ArgInt n \<Rightarrow> Some DateNumber | ArgDayOfWeek w \<Rightarrow> Some WeekDay
         | ArgDate d \<Rightarrow> Some Date | ArgNone \<Rightarrow> Some Daily | ArgOther \<Rightarrow> None)"
  by (cases arg) (simp_all add: BudgetItem_init_def)

text \<open>
  The claim C4 as the specification states it, "fails with an InvalidDueDate error",
  does not hold: for an unsupported value the constructor returns an item.
\<close>

theorem BudgetItem_init_unsupported:
  "BudgetItem_init ''Rent'' (-900 :: int) MONTHLY ArgOther =
     Inr \<lparr>name = ''Rent'', amount = -900, cycle = MONTHLY, due_date_type = None, due_date = Unset\<rparr> \<and>
   BudgetItem_init ''Rent'' (-900 :: int) MONTHLY ArgOther \<noteq> Inl InvalidDueDate"
  by (simp add: BudgetItem_init_def)

subsection \<open>The frame of a forecast (C7)\<close>

text \<open>
  Claim C7. When \<^verbatim>\<open>forecast\<close> returns, the budget has the same items in the same
  places; each has the name, the amount, the cycle and the kind it had before the
  call, and an item whose kind is not \<open>Date\<close> is unchanged entirely: the only field
  the call writes is the due date of items of kind \<open>Date\<close>.
\<close>

theorem forecast_frame:
  assumes "forecast balance start duration budget = Some (Inr (entries, final, budget'))"
  shows "length budget' = length budget \<and>
         (\<forall>k<length budget.
            name (budget' ! k) = name (budget ! k) \<and>
            amount (budget' ! k) = amount (budget ! k) \<and>
            cycle (budget' ! k) = cycle (budget ! k) \<and>
            due_date_type (budget' ! k) = due_date_type (budget ! k) \<and>
            (due_date_type (budget ! k) \<noteq> Some Date \<longrightarrow> budget' ! k = budget ! k))"
proof -
  from assms obtain end_day dl budget1 where
    n: "normalize_all dl budget = Some (Inr budget1)"
    and w: "walk_days dl budget1 balance = Inr (entries, final, budget')"
    by (rule forecast_result)
  from normalize_all_frame[OF n] walk_days_frame[OF w]
  have "list_all2 only_due_date_changed budget budget'"
    by (auto intro: list_all2_only_due_date_changed_trans)
  then show ?thesis
    by (auto simp: list_all2_conv_all_nth only_due_date_changed_def)
qed

theorem forecast_frame_witness:
  "\<exists>entries final budget'.
     forecast (100::int) \<lparr>year = 2024, month = 2, day = 26\<rparr> 1
       [\<lparr>name = ''Food'', amount = - 36, cycle = DAILY, due_date_type = Some Daily,
         due_date = NoneVal\<rparr>,
        \<lparr>name = ''Pay'', amount = 50, cycle = BIWEEKLY, due_date_type = Some Date,
         due_date = DateVal \<lparr>year = 2024, month = 2, day = 27\<rparr>\<rparr>]
       = Some (Inr (entries, final, budget')) \<and>
     length budget' = 2 \<and>
     budget' ! 0 = \<lparr>name = ''Food'', amount = - 36, cycle = DAILY, due_date_type = Some Daily,
                     due_date = NoneVal\<rparr> \<and>
     name (budget' ! 1) = ''Pay'' \<and> amount (budget' ! 1) = 50 \<and> cycle (budget' ! 1) = BIWEEKLY \<and>
     due_date_type (budget' ! 1) = Some Date \<and>
     due_date (budget' ! 1) = DateVal \<lparr>year = 2024, month = 3, day = 12\<rparr>"
proof -
  let ?start = "\<lparr>year = 2024, month = 2, day = 26\<rparr>"
  let ?budget = "[\<lparr>name = ''Food'', amount = - 36 :: int, cycle = DAILY,
                   due_date_type = Some Daily, due_date = NoneVal\<rparr>,
        \<lparr>name = ''Pay'', amount = 50, cycle = BIWEEKLY, due_date_type = Some Date,
         due_date = DateVal \<lparr>year = 2024, month = 2, day = 27\<rparr>\<rparr>]"
  have "\<exists>entries final.
          forecast (100::int) ?start 1 ?budget = Some (Inr (entries, final,
            [\<lparr>name = ''Food'', amount = - 36 :: int, cycle = DAILY,
                   due_date_type = Some Daily, due_date = NoneVal\<rparr>,
        \<lparr>name = ''Pay'', amount = 50, cycle = BIWEEKLY, due_date_type = Some Date,
         due_date = DateVal \<lparr>year = 2024, month = 3, day = 12\<rparr>\<rparr>]))"
    by (simp add: engine_eval date_eval upt_7 eval_nat_numeral)
  then obtain entries final where
    f: "forecast (100::int) ?start 1 ?budget = Some (Inr (entries, final,
            [\<lparr>name = ''Food'', amount = - 36 :: int, cycle = DAILY,
                   due_date_type = Some Daily, due_date = NoneVal\<rparr>,
        \<lparr>name = ''Pay'', amount = 50, cycle = BIWEEKLY, due_date_type = Some Date,
         due_date = DateVal \<lparr>year = 2024, month = 3, day = 12\<rparr>\<rparr>]))" by blast
  from forecast_frame[OF f] f show ?thesis by auto
qed

subsection \<open>Missing fields in the decoder (C9)\<close>




subsection \<open>Several items on one day (C6)\<close>



subsection \<open>The first day of an empty window (C10)\<close>

text \<open>
  Claim C10. A call with duration 0 and at least one item of kind \<open>Date\<close> (each
  such item with its \<^verbatim>\<open>due_date\<close> attribute, as the constructor sets it) has an
  empty window, and phase 1 fails on \<^verbatim>\<open>date_list[0]\<close> with an
  \<^verbatim>\<open>IndexError\<close>. A call with a duration of at least 1 never raises an
  \<^verbatim>\<open>IndexError\<close>: whenever the window is computed its first element is
  \<open>start\<close>, and the lookup of phase 1 finds it.
\<close>

theorem first_day_lookup:
  "(duration = 0 \<and> (\<exists>item\<in>set budget. due_date_type item = Some Date) \<and>
    (\<forall>item\<in>set budget. due_date_type item = Some Date \<longrightarrow> due_date item \<noteq> Unset) \<longrightarrow>
      date_list_of start duration = Inr [] \<and>
      forecast balance start duration budget = Some (Inl IndexError)) \<and>
   (1 \<le> duration \<longrightarrow>
      forecast balance start duration budget \<noteq> Some (Inl IndexError) \<and>
      (\<forall>date_list. date_list_of start duration = Inr date_list \<longrightarrow>
         (\<exists>rest. date_list = start # rest) \<and>
         (\<forall>d. phase1_operands (DateVal d) date_list = Inr (d, start))))"
proof (intro conjI impI allI)
  assume a: "duration = 0 \<and> (\<exists>item\<in>set budget. due_date_type item = Some Date) \<and>
    (\<forall>item\<in>set budget. due_date_type item = Some Date \<longrightarrow> due_date item \<noteq> Unset)"
  then show "date_list_of start duration = Inr []" by (simp add: date_list_of_zero)
  from a have "normalize_all [] budget = Some (Inl IndexError)"
    by (intro normalize_all_empty_window) auto
  with a show "forecast balance start duration budget = Some (Inl IndexError)"
    by (simp add: forecast_def date_list_of_zero add_days_zero)
next
  assume d: "1 \<le> duration"
  show "forecast balance start duration budget \<noteq> Some (Inl IndexError)"
  proof
    assume f: "forecast balance start duration budget = Some (Inl IndexError)"
    show False
    proof (cases "add_days start (7 * duration)")
      case (Inl e)
      with f add_days_error[OF Inl] show False by (simp add: forecast_def)
    next
      case (Inr end_day)
      show False
      proof (cases "date_list_of start duration")
        case (Inl e)
        with f Inr date_list_of_error[OF Inl] show False by (simp add: forecast_def)
      next
        case dl: (Inr date_list)
        from date_list_of_first[OF dl d] obtain rest where r: "date_list = start # rest" by blast
        show False
        proof (cases "normalize_all date_list budget")
          case None
          with f Inr dl show False by (simp add: forecast_def)
        next
          case (Some r1)
          show False
          proof (cases r1)
            case (Inl e)
            with f Inr dl Some have "e = IndexError" by (simp add: forecast_def)
            with normalize_all_error[of start rest budget e] Some Inl r show False by simp
          next
            case b1: (Inr budget1)
            with f Inr dl Some have "walk_days date_list budget1 balance = Inl IndexError"
              by (simp add: forecast_def)
            from walk_days_error[OF this] show False by simp
          qed
        qed
      qed
    qed
  qed
next
  fix date_list
  assume d: "1 \<le> duration" and dl: "date_list_of start duration = Inr date_list"
  from date_list_of_first[OF dl d] show "\<exists>rest. date_list = start # rest" .
  then show "\<And>d. phase1_operands (DateVal d) date_list = Inr (d, start)"
    by (auto simp: phase1_operands_def)
qed

theorem first_day_lookup_witness:
  "forecast (1000::int) \<lparr>year = 2024, month = 2, day = 26\<rparr> 0
     [\<lparr>name = ''Taxes'', amount = - 100, cycle = YEARLY, due_date_type = Some Date,
       due_date = DateVal \<lparr>year = 2024, month = 4, day = 14\<rparr>\<rparr>] = Some (Inl IndexError) \<and>
   forecast (1000::int) \<lparr>year = 2024, month = 2, day = 26\<rparr> 1
     [\<lparr>name = ''Taxes'', amount = - 100, cycle = YEARLY, due_date_type = Some Date,
       due_date = DateVal \<lparr>year = 2024, month = 4, day = 14\<rparr>\<rparr>] \<noteq> Some (Inl IndexError) \<and>
   (\<exists>rest. date_list_of \<lparr>year = 2024, month = 2, day = 26\<rparr> 1 =
      Inr (\<lparr>year = 2024, month = 2, day = 26\<rparr> # rest))"
proof -
  let ?start = "\<lparr>year = 2024, month = 2, day = 26\<rparr>"
  let ?budget = "[\<lparr>name = ''Taxes'', amount = - 100 :: int, cycle = YEARLY,
       due_date_type = Some Date, due_date = DateVal \<lparr>year = 2024, month = 4, day = 14\<rparr>\<rparr>]"
  have 1: "forecast (1000::int) ?start 0 ?budget = Some (Inl IndexError)"
    using first_day_lookup[of 0 ?budget ?start 1000] by simp
  have 2: "forecast (1000::int) ?start 1 ?budget \<noteq> Some (Inl IndexError)"
    using first_day_lookup[of 1 ?budget ?start 1000] by simp
  have "\<exists>dl. date_list_of ?start 1 = Inr dl"
    by (simp add: date_list_of_def date_eval upt_7 eval_nat_numeral)
  then obtain dl where dl: "date_list_of ?start 1 = Inr dl" by blast
  with first_day_lookup[of 1 ?budget ?start 1000] have "\<exists>rest. dl = ?start # rest" by simp
  with dl have 3: "\<exists>rest. date_list_of ?start 1 = Inr (?start # rest)" by auto
  from 1 2 3 show ?thesis by blast
qed

subsection \<open>Items of kind Date in the walk (C3)\<close>



subsection \<open>A yearly item ten days overdue (C8)\<close>

text \<open>
  Claim C8, as the code has it. Take a window start, a single item of kind \<open>Date\<close>
  with the cycle YEARLY and any amount, due ten days before the start, and let the due
  date lie in a year before 9999. A forecast of one week returns: phase 1 advances the
  due date by one step of twelve months, which puts it on or after the start; every one
  of the seven days of the window is before the new due date, so the item never fires:
  every entry has the starting balance and no transaction, and the final balance is
  the starting balance.
\<close>

theorem overdue_yearly_item:
  assumes start: "valid_date start" and due: "add_days start (- 10) = Inr due"
    and yr: "year due < 9999"
    and item: "item = \<lparr>name = nm, amount = amt, cycle = YEARLY, due_date_type = Some Date,
                       due_date = DateVal due\<rparr>"
  shows "\<exists>entries due'.
           add_months due 12 = Inr due' \<and> date_less due start \<and> \<not> date_less due' start \<and>
           forecast balance start 1 [item] =
             Some (Inr (entries, balance, [item\<lparr>due_date := DateVal due'\<rparr>])) \<and>
           length entries = 7 \<and>
           (\<forall>e\<in>set entries.
              date_less (on_date e) due' \<and> end_balance e = balance \<and> trans e = Map.empty)"
proof -
  have vdue: "valid_date due" using start due by (rule add_days_valid)
  from due have "iter_day prev_day 10 start = Inr due" by (simp add: add_days_def)
  with start have forth: "iter_day next_day 10 due = Inr start" by (rule iter_prev_next)
  then have lt: "date_less due start" using iter_next_less[of 10 due start] by simp
  from iter_next_succeeds[OF vdue yr, of 17] obtain end_day
    where "iter_day next_day (10 + 7) due = Inr end_day" by auto
  with forth have "iter_day next_day 7 start = Inr end_day" by (simp only: iter_day_add) simp
  then have e: "add_days start (7 * 1) = Inr end_day" by (simp add: add_days_def)
  from date_list_of_exists[OF e] obtain dl where dl: "date_list_of start 1 = Inr dl" by blast
  from date_list_of_first[OF dl] obtain rest where rest: "dl = start # rest" by auto
  from date_list_of_nth[OF dl] have len: "length dl = 7"
    and nth: "\<And>i. i < length dl \<Longrightarrow> add_days start (int i) = Inr (dl ! i)" by simp_all
  from add_months_12[OF vdue yr] obtain due' where
    d': "add_months due 12 = Inr due'" "valid_date due'" "month_index due' = month_index due + 12"
    by blast
  have window: "valid_date t \<and> date_less t due'" if "t \<in> set dl" for t
  proof -
    from that obtain i where i: "i < length dl" "dl ! i = t" by (auto simp: in_set_conv_nth)
    with nth have "iter_day next_day i start = Inr t" by (simp add: add_days_int)
    with forth have a: "iter_day next_day (10 + i) due = Inr t" by (simp only: iter_day_add) simp
    have vt: "valid_date t" using vdue a by (rule iter_next_valid)
    from i(1) len have "10 + i \<le> 27" by simp
    from iter_next_month_index[OF vdue a this] have "month_index t \<le> month_index due + 1" by auto
    with d'(3) have "month_index t < month_index due'" by simp
    with vt d'(2) show ?thesis by (simp add: month_index_less)
  qed
  from window[of start] rest have after: "date_less start due'" by simp
  then have notless: "\<not> date_less due' start" by (rule date_less_asym)
  have notin: "due' \<notin> set dl" using window date_less_irrefl by blast
  let ?item' = "item\<lparr>due_date := DateVal due'\<rparr>"
  have loop: "advance_until (\<lambda>x. add_months x 12) start due = Some (Inr due')"
    using lt d'(1) notless
    by (simp add: advance_until.simps[of _ start due] advance_until.simps[of _ start due'])
  have "normalize dl item = Some (Inr ?item')"
    using lt loop by (simp add: normalize_def phase1_operands_def rest item set_due_date_def)
  then have n: "normalize_all dl [item] = Some (Inr [?item'])" by simp
  have w: "walk_days dl [?item'] balance =
      Inr (map (\<lambda>t. \<lparr>on_date = t, end_balance = balance, trans = Map.empty\<rparr>) dl, balance, [?item'])"
    by (rule walk_days_idle[OF _ _ notin]) (simp_all add: item)
  let ?entries = "map (\<lambda>t. \<lparr>on_date = t, end_balance = balance, trans = Map.empty\<rparr>) dl"
  have f: "forecast balance start 1 [item] = Some (Inr (?entries, balance, [?item']))"
    using e dl n w by (simp add: forecast_def)
  have "\<forall>e\<in>set ?entries.
          date_less (on_date e) due' \<and> end_balance e = balance \<and> trans e = Map.empty"
    using window by auto
  with d'(1) lt notless f len show ?thesis by (intro exI[of _ ?entries] exI[of _ due']) simp
qed

theorem overdue_yearly_item_witness:
  "valid_date \<lparr>year = 2024, month = 3, day = 5\<rparr> \<and>
   add_days \<lparr>year = 2024, month = 3, day = 5\<rparr> (- 10) = Inr \<lparr>year = 2024, month = 2, day = 24\<rparr> \<and>
   add_months \<lparr>year = 2024, month = 2, day = 24\<rparr> 12 = Inr \<lparr>year = 2025, month = 2, day = 24\<rparr> \<and>
   (\<exists>entries.
      forecast (1000::int) \<lparr>year = 2024, month = 3, day = 5\<rparr> 1
        [\<lparr>name = ''Taxes'', amount = - 100, cycle = YEARLY, due_date_type = Some Date,
          due_date = DateVal \<lparr>year = 2024, month = 2, day = 24\<rparr>\<rparr>]
        = Some (Inr (entries, 1000,
            [\<lparr>name = ''Taxes'', amount = - 100, cycle = YEARLY, due_date_type = Some Date,
              due_date = DateVal \<lparr>year = 2025, month = 2, day = 24\<rparr>\<rparr>])) \<and>
      length entries = 7 \<and> list_all (\<lambda>e. end_balance e = 1000 \<and> trans e = Map.empty) entries)"
proof -
  let ?start = "\<lparr>year = 2024, month = 3, day = 5\<rparr>"
  let ?due = "\<lparr>year = 2024, month = 2, day = 24\<rparr>"
  let ?item = "\<lparr>name = ''Taxes'', amount = - 100 :: int, cycle = YEARLY,
                 due_date_type = Some Date, due_date = DateVal ?due\<rparr>"
  have v: "valid_date ?start" by (simp add: date_eval)
  have d: "add_days ?start (- 10) = Inr ?due" by (simp add: date_eval eval_nat_numeral)
  have m: "add_months ?due 12 = Inr \<lparr>year = 2025, month = 2, day = 24\<rparr>"
    by (simp add: date_eval)
  from overdue_yearly_item[OF v d, of ?item "''Taxes''" "- 100" 1000] m
  have "\<exists>entries.
      forecast (1000::int) ?start 1 [?item]
        = Some (Inr (entries, 1000, [?item\<lparr>due_date := DateVal \<lparr>year = 2025, month = 2, day = 24\<rparr>\<rparr>])) \<and>
      length entries = 7 \<and> list_all (\<lambda>e. end_balance e = 1000 \<and> trans e = Map.empty) entries"
    by (auto simp: list_all_iff)
  with v d m show ?thesis by simp
qed

text \<open>
  The claim C8 as the specification states it, "for every window start date", fails
  in the year 9999: the due date ten days before 9999-06-15 exists, and the step of
  twelve months to the year 10000 raises.
\<close>

theorem overdue_yearly_item_raises:
  "valid_date \<lparr>year = 9999, month = 6, day = 15\<rparr> \<and>
   add_days \<lparr>year = 9999, month = 6, day = 15\<rparr> (- 10) = Inr \<lparr>year = 9999, month = 6, day = 5\<rparr> \<and>
   forecast (1000::int) \<lparr>year = 9999, month = 6, day = 15\<rparr> 1
     [\<lparr>name = ''Taxes'', amount = - 100, cycle = YEARLY, due_date_type = Some Date,
       due_date = DateVal \<lparr>year = 9999, month = 6, day = 5\<rparr>\<rparr>] = Some (Inl DateOutOfRange)"
  by (simp add: engine_eval date_eval upt_7 eval_nat_numeral)

end
